theory Spec2Isabelle
  imports Complex_Main "HOL-Library.Word" "HOL-Library.AList"
begin

unbundle bit_operations_syntax

section \<open>Numbers\<close>

text \<open>
  The assembler computes with JavaScript numbers. The values that occur are the integers
  and, after a division or remainder by zero, the three non-finite values. Integers are
  taken exactly (JavaScript is exact up to \<open>2 ^ 53\<close>), and negative zero is identified
  with zero.
\<close>

datatype number = Integer int | NaN | Infinity | NegInfinity

text \<open>\<^verbatim>\<open>a < b\<close>: every comparison with \<open>NaN\<close> is false.\<close>

fun js_lt :: "number \<Rightarrow> number \<Rightarrow> bool" where
  "js_lt (Integer a) (Integer b) = (a < b)"
| "js_lt NaN _ = False"
| "js_lt _ NaN = False"
| "js_lt _ NegInfinity = False"
| "js_lt NegInfinity _ = True"
| "js_lt Infinity _ = False"
| "js_lt _ Infinity = True"

text \<open>\<^verbatim>\<open>a > b\<close>\<close>

definition js_gt :: "number \<Rightarrow> number \<Rightarrow> bool" where
  "js_gt a b = js_lt b a"

text \<open>\<^verbatim>\<open>-a\<close>\<close>

fun js_neg :: "number \<Rightarrow> number" where
  "js_neg (Integer a) = Integer (- a)"
| "js_neg NaN = NaN"
| "js_neg Infinity = NegInfinity"
| "js_neg NegInfinity = Infinity"

text \<open>\<^verbatim>\<open>a + b\<close>\<close>

fun js_add :: "number \<Rightarrow> number \<Rightarrow> number" where
  "js_add (Integer a) (Integer b) = Integer (a + b)"
| "js_add NaN _ = NaN"
| "js_add _ NaN = NaN"
| "js_add Infinity NegInfinity = NaN"
| "js_add NegInfinity Infinity = NaN"
| "js_add Infinity _ = Infinity"
| "js_add _ Infinity = Infinity"
| "js_add NegInfinity _ = NegInfinity"
| "js_add _ NegInfinity = NegInfinity"

text \<open>\<^verbatim>\<open>a - b\<close>\<close>

fun js_sub :: "number \<Rightarrow> number \<Rightarrow> number" where
  "js_sub (Integer a) (Integer b) = Integer (a - b)"
| "js_sub NaN _ = NaN"
| "js_sub _ NaN = NaN"
| "js_sub Infinity Infinity = NaN"
| "js_sub NegInfinity NegInfinity = NaN"
| "js_sub Infinity _ = Infinity"
| "js_sub _ Infinity = NegInfinity"
| "js_sub NegInfinity _ = NegInfinity"
| "js_sub _ NegInfinity = Infinity"

text \<open>\<^verbatim>\<open>a * b\<close>: zero times a non-finite value is \<open>NaN\<close>.\<close>

fun js_mul :: "number \<Rightarrow> number \<Rightarrow> number" where
  "js_mul (Integer a) (Integer b) = Integer (a * b)"
| "js_mul NaN _ = NaN"
| "js_mul _ NaN = NaN"
| "js_mul (Integer a) Infinity = (if a = 0 then NaN else if 0 < a then Infinity else NegInfinity)"
| "js_mul (Integer a) NegInfinity = (if a = 0 then NaN else if 0 < a then NegInfinity else Infinity)"
| "js_mul Infinity (Integer b) = (if b = 0 then NaN else if 0 < b then Infinity else NegInfinity)"
| "js_mul NegInfinity (Integer b) = (if b = 0 then NaN else if 0 < b then NegInfinity else Infinity)"
| "js_mul Infinity Infinity = Infinity"
| "js_mul NegInfinity NegInfinity = Infinity"
| "js_mul Infinity NegInfinity = NegInfinity"
| "js_mul NegInfinity Infinity = NegInfinity"

text \<open>
  The bitwise operators first convert an operand to a 32-bit integer (ToInt32): the
  non-finite values become 0, an integer is reduced modulo \<open>2 ^ 32\<close>. The result is read
  back as a signed 32-bit value. A shift count is the low five bits of the right operand.
\<close>

fun ToInt32 :: "number \<Rightarrow> 32 word" where
  "ToInt32 (Integer a) = word_of_int a"
| "ToInt32 _ = 0"

definition shiftCount :: "number \<Rightarrow> nat" where
  "shiftCount b = unat (ToInt32 b AND 31)"

definition js_or :: "number \<Rightarrow> number \<Rightarrow> number" where
  "js_or a b = Integer (sint (ToInt32 a OR ToInt32 b))"

definition js_xor :: "number \<Rightarrow> number \<Rightarrow> number" where
  "js_xor a b = Integer (sint (ToInt32 a XOR ToInt32 b))"

definition js_and :: "number \<Rightarrow> number \<Rightarrow> number" where
  "js_and a b = Integer (sint (ToInt32 a AND ToInt32 b))"

definition js_not :: "number \<Rightarrow> number" where
  "js_not a = Integer (sint (NOT (ToInt32 a)))"

definition js_shl :: "number \<Rightarrow> number \<Rightarrow> number" where
  "js_shl a b = Integer (sint (push_bit (shiftCount b) (ToInt32 a)))"

definition js_shr :: "number \<Rightarrow> number \<Rightarrow> number" where
  "js_shr a b = Integer (sint (signed_drop_bit (shiftCount b) (ToInt32 a)))"

text \<open>\<^verbatim>\<open>Math.trunc\<close> on a finite quotient drops the fractional part.\<close>

definition Math_trunc :: "real \<Rightarrow> int" where
  "Math_trunc x = (if x < 0 then \<lceil>x\<rceil> else \<lfloor>x\<rfloor>)"

subsection \<open>The operators of expressions\<close>

definition operatorOr :: "number \<Rightarrow> number \<Rightarrow> number" where
  "operatorOr a b = js_or a b"

definition operatorXor :: "number \<Rightarrow> number \<Rightarrow> number" where
  "operatorXor a b = js_xor a b"

definition operatorAnd :: "number \<Rightarrow> number \<Rightarrow> number" where
  "operatorAnd a b = js_and a b"

definition operatorLeftShift :: "number \<Rightarrow> number \<Rightarrow> number" where
  "operatorLeftShift a b = js_shl a b"

definition operatorRightShift :: "number \<Rightarrow> number \<Rightarrow> number" where
  "operatorRightShift a b = js_shr a b"

definition operatorAdd :: "number \<Rightarrow> number \<Rightarrow> number" where
  "operatorAdd a b = js_add a b"

definition operatorSub :: "number \<Rightarrow> number \<Rightarrow> number" where
  "operatorSub a b = js_sub a b"

definition operatorMul :: "number \<Rightarrow> number \<Rightarrow> number" where
  "operatorMul a b = js_mul a b"


text \<open>\<^verbatim>\<open>a % b\<close>: the remainder has the sign of the dividend.\<close>

fun operatorModulo :: "number \<Rightarrow> number \<Rightarrow> number" where
  "operatorModulo (Integer a) (Integer b) =
     (if b = 0 then NaN else Integer (a - b * Math_trunc (real_of_int a / real_of_int b)))"
| "operatorModulo (Integer a) Infinity = Integer a"
| "operatorModulo (Integer a) NegInfinity = Integer a"
| "operatorModulo _ _ = NaN"

definition operatorPlus :: "number \<Rightarrow> number" where
  "operatorPlus a = a"

definition operatorNeg :: "number \<Rightarrow> number" where
  "operatorNeg a = js_neg a"

definition operatorInvert :: "number \<Rightarrow> number" where
  "operatorInvert a = js_not a"

definition operatorIdentity :: "number \<Rightarrow> number" where
  "operatorIdentity a = a"

section \<open>The symbol table (Labels.ts)\<close>

text \<open>
  An expression is built by the parser from the closures of Ast.ts: \<^verbatim>\<open>value(nn)\<close>,
  \<^verbatim>\<open>labelValue(pos, name)\<close>, \<^verbatim>\<open>unaryOperation(e, op)\<close> and
  \<^verbatim>\<open>binaryOperation(left, right, op)\<close>, whose left operand may be null. The closures
  are kept as a tree, the operators as the functions they are; the position of a label
  reference is an argument that \<open>getLabelValue\<close> does not read and is left out. The
  constructor of \<^verbatim>\<open>value(nn)\<close> is \<open>valueOf\<close>, as \<open>value\<close> names a field of a
  label. The builders
  \<^verbatim>\<open>unaryOperations\<close> and \<^verbatim>\<open>binaryOperations\<close> look their operator up in a table
  under its name and then do what these two do: a node they build is the node of the
  operator they find.
\<close>

datatype Expression =
    valueOf number
  | labelValue string
  | unaryOperation Expression "number \<Rightarrow> number"
  | binaryOperation "Expression option" Expression "number \<Rightarrow> number \<Rightarrow> number"

text \<open>
  A program counter as the code passes it around: a number, or one of JavaScript's null
  and undefined (\<^verbatim>\<open>label.expression.eval()\<close> passes none, and \<open>JrRelative\<close> tests
  \<^verbatim>\<open>pc == null\<close>).
\<close>

datatype Address = Addr number | Null | Undefined

text \<open>
  The keys of the table. \<open>addLabel\<close> and \<open>addLabelExpression\<close> store under the name of
  a label, a string. The label nodes of Ast.ts and \<open>JrRelative\<close> call
  \<^verbatim>\<open>getLabelValue(pc, name, position, true, mustExist)\<close>, and the function of Labels.ts is
  \<^verbatim>\<open>getLabelValue(name)\<close>: its one parameter receives the first argument, the program
  counter, and the table is read and written under that key. A JavaScript map keeps a
  number, null and undefined apart from every string and from each other.
\<close>

datatype key = Name string | At Address

text \<open>
  A label. The field \<open>value\<close> is declared a number; JavaScript's null stays
  representable (\<open>None\<close>) so that the test \<^verbatim>\<open>label.value == null\<close> of
  \<open>getUnknownLabels\<close> is embedded as it is written.
\<close>

record Label =
  expression :: "Expression option"
  "value" :: "number option"
  known :: bool
  used :: bool

text \<open>
  \<^verbatim>\<open>Map<string, Label>\<close>: the entries in insertion order. \<^verbatim>\<open>labels.get\<close> is
  \<^const>\<open>map_of\<close>, \<^verbatim>\<open>labels.set\<close> is \<^const>\<open>AList.update\<close> (a new key goes to the
  end), and an assignment to a field of the object that \<^verbatim>\<open>labels.get(name)\<close> returned
  is \<^const>\<open>AList.map_entry\<close> at that name.
\<close>

type_synonym Labels = "(key \<times> Label) list"

text \<open>\<^verbatim>\<open>value ?? 0\<close>\<close>

definition orZero :: "number option \<Rightarrow> number" where
  "orZero v = (case v of None \<Rightarrow> Integer 0 | Some x \<Rightarrow> x)"

definition resetLabels :: "Labels \<Rightarrow> Labels" where
  "resetLabels s = []"

definition addLabel :: "string \<Rightarrow> number option \<Rightarrow> Labels \<Rightarrow> Labels" where
  "addLabel name v s =
     (case map_of s (Name name) of
        None \<Rightarrow>
          AList.update (Name name)
            \<lparr>expression = None, value = Some (orZero v), known = (v \<noteq> None), used = False\<rparr> s
      | Some label \<Rightarrow>
          if known label
          then AList.map_entry (Name name)
                 (\<lambda>l. l\<lparr>value := Some (orZero v), known := (v \<noteq> None)\<rparr>) s
          else AList.map_entry (Name name)
                 (\<lambda>l. l\<lparr>value := Some (orZero v), known := (v \<noteq> None)\<rparr>) s)"

definition addLabelExpression :: "string \<Rightarrow> Expression \<Rightarrow> Labels \<Rightarrow> Labels" where
  "addLabelExpression name e s =
     (case map_of s (Name name) of
        None \<Rightarrow>
          AList.update (Name name)
            \<lparr>expression = Some e, value = Some (Integer 0), known = False, used = False\<rparr> s
      | Some label \<Rightarrow>
          if known label then s
          else AList.map_entry (Name name) (\<lambda>l. l\<lparr>expression := Some e\<rparr>) s)"

text \<open>
  Evaluation of an expression and \<open>getLabelValue\<close> call each other, and both write to
  the table: they take the table and return it with the result. \<open>getLabelValue\<close> takes
  the key it is called with: the name of a label when it is called as declared, the
  program counter when a label node or \<open>JrRelative\<close> calls it. A label node therefore
  reads the entry under the program counter, whatever its name.

  The stored expression is evaluated as \<^verbatim>\<open>label.expression.eval()\<close>, with neither a
  program counter nor the flag: the counter is undefined, the flag is false.

  In a table where the entry under a program counter holds a stored expression the two
  functions could call each other without end. The first argument bounds the nesting of
  stored expressions that a call may open; \<open>None\<close> says that the bound did not suffice.
\<close>

fun eval :: "nat \<Rightarrow> Expression \<Rightarrow> Address \<Rightarrow> bool \<Rightarrow> Labels
               \<Rightarrow> (number option \<times> Labels) option"
  and getLabelValue :: "nat \<Rightarrow> key \<Rightarrow> Labels \<Rightarrow> (number option \<times> Labels) option"
where
  "eval n (valueOf nn) pc mustExist s = Some (Some nn, s)"
| "eval n (labelValue name) pc mustExist s = getLabelValue n (At pc) s"
| "eval n (unaryOperation e op) pc mustExist s =
     (case eval n e pc mustExist s of
        None \<Rightarrow> None
      | Some (v, s') \<Rightarrow> Some (case v of None \<Rightarrow> None | Some a \<Rightarrow> Some (op a), s'))"
| "eval n (binaryOperation left right op) pc mustExist s =
     (case eval n right pc mustExist s of
        None \<Rightarrow> None
      | Some (rightValue, s1) \<Rightarrow>
          (case left of
             None \<Rightarrow> Some (rightValue, s1)
           | Some l \<Rightarrow>
               (case eval n l pc mustExist s1 of
                  None \<Rightarrow> None
                | Some (leftValue, s2) \<Rightarrow>
                    Some (case (leftValue, rightValue) of
                            (Some a, Some b) \<Rightarrow> Some (op a b)
                          | _ \<Rightarrow> None, s2))))"
| "getLabelValue n name s =
     (case map_of s name of
        None \<Rightarrow>
          Some (None, AList.update name
            \<lparr>expression = None, value = Some (Integer 0), known = False, used = True\<rparr> s)
      | Some label \<Rightarrow>
          let s1 = AList.map_entry name (\<lambda>l. l\<lparr>used := True\<rparr>) s in
          if known label then Some (value label, s1)
          else
            (case expression label of
               None \<Rightarrow> Some (None, s1)
             | Some e \<Rightarrow>
                 (case n of
                    0 \<Rightarrow> None
                  | Suc m \<Rightarrow>
                      (case eval m e Undefined False s1 of
                         None \<Rightarrow> None
                       | Some (None, s2) \<Rightarrow> Some (None, s2)
                       | Some (Some v, s2) \<Rightarrow>
                           Some (Some v,
                             AList.map_entry name (\<lambda>l. l\<lparr>value := Some v, known := True\<rparr>) s2)))))"

declare getLabelValue.simps [simp del]

definition getLabel :: "string \<Rightarrow> Labels \<Rightarrow> Label option" where
  "getLabel name s = map_of s (Name name)"

definition getUnknownLabels :: "Labels \<Rightarrow> key list" where
  "getUnknownLabels s =
     map fst (filter (\<lambda>(name, label). \<not> known label \<and> value label = None) s)"

subsection \<open>Runs of the table\<close>

text \<open>
  The tables that a compilation run can reach: it starts from \<open>resetLabels\<close> and
  proceeds by declarations, by resolutions of labels and by evaluations of expressions
  that return.
\<close>

inductive reachable :: "Labels \<Rightarrow> bool" where
  reach_reset: "reachable (resetLabels s)"
| reach_addLabel: "reachable s \<Longrightarrow> reachable (addLabel k v s)"
| reach_addLabelExpression: "reachable s \<Longrightarrow> reachable (addLabelExpression k e s)"
| reach_getLabelValue: "reachable s \<Longrightarrow> getLabelValue n k s = Some (r, s') \<Longrightarrow> reachable s'"
| reach_eval: "reachable s \<Longrightarrow> eval n e pc m s = Some (r, s') \<Longrightarrow> reachable s'"

text \<open>
  \<open>run_keeping name s t\<close>: the run continues from \<open>s\<close> to \<open>t\<close> and does not declare
  \<open>name\<close> again by \<open>addLabel\<close>; anything else may happen to any label.
\<close>

inductive run_keeping :: "key \<Rightarrow> Labels \<Rightarrow> Labels \<Rightarrow> bool"
  for name :: key and s :: Labels where
  keep_refl: "run_keeping name s s"
| keep_addLabel:
    "run_keeping name s t \<Longrightarrow> Name k \<noteq> name \<Longrightarrow> run_keeping name s (addLabel k v t)"
| keep_addLabelExpression:
    "run_keeping name s t \<Longrightarrow> run_keeping name s (addLabelExpression k e t)"
| keep_getLabelValue:
    "run_keeping name s t \<Longrightarrow> getLabelValue n k t = Some (r, t') \<Longrightarrow> run_keeping name s t'"
| keep_eval:
    "run_keeping name s t \<Longrightarrow> eval n e pc m t = Some (r, t') \<Longrightarrow> run_keeping name s t'"

text \<open>
  \<open>grows s s'\<close>: every label of \<open>s\<close> is a label of \<open>s'\<close> with the same stored
  expression, a known label stays known with its value, and a label that is new in \<open>s'\<close>
  has no stored expression.
\<close>

definition grows :: "Labels \<Rightarrow> Labels \<Rightarrow> bool" where
  "grows s s' \<longleftrightarrow>
     (\<forall>k l. map_of s k = Some l \<longrightarrow>
        (\<exists>l'. map_of s' k = Some l' \<and> expression l' = expression l
              \<and> (known l \<longrightarrow> known l' \<and> value l' = value l)))
   \<and> (\<forall>k l'. map_of s' k = Some l' \<longrightarrow> map_of s k = None \<longrightarrow> expression l' = None)"

text \<open>
  \<open>counters_unresolved s\<close>: an entry under a program counter is not known and holds
  no stored expression. Declarations write under names only, so every run keeps the
  table in this state.
\<close>

definition counters_unresolved :: "Labels \<Rightarrow> bool" where
  "counters_unresolved s \<longleftrightarrow>
     (\<forall>a l. map_of s (At a) = Some l \<longrightarrow> \<not> known l \<and> expression l = None)"

text \<open>Every entry stores a number in its field \<open>value\<close>.\<close>

definition values_stored :: "Labels \<Rightarrow> bool" where
  "values_stored s \<longleftrightarrow> list_all (\<lambda>(k, l). value l \<noteq> None) s"

section \<open>The byte emitters (Ast.ts)\<close>

text \<open>
  A compilation error carries the position recorded by the element and a message. The
  type of positions is a parameter. A message is kept as the parts of its template:
  literal text and the numbers it interpolates.
\<close>

datatype part = Text string | Num number

datatype 'p CompilationError = CompilationError 'p "part list"

text \<open>
  The elements that compute their bytes from an expression or a label: \<open>Value16\<close>,
  \<open>Value8\<close>, \<open>ValueNeg8\<close>, \<open>Jr\<close> and \<open>JrRelative\<close>, each with its position. (The
  block of fill bytes, \<open>ByteBlock\<close>, is not part of this development.)
\<close>

datatype 'p AstBase =
    Value16 'p Expression
  | Value8 'p Expression
  | ValueNeg8 'p Expression
  | Jr 'p Expression
  | JrRelative 'p string

fun size_of :: "'p AstBase \<Rightarrow> nat" where
  "size_of (Value16 position e) = 2"
| "size_of (Value8 position e) = 1"
| "size_of (ValueNeg8 position e) = 1"
| "size_of (Jr position e) = 1"
| "size_of (JrRelative position label) = 1"

text \<open>
  \<open>generate\<close> returns the bytes (\<open>Inr\<close>) or the error it throws (\<open>Inl\<close>), and the
  table as the evaluation left it; \<open>None\<close> when the evaluation did not finish within
  the bound. \<open>JrRelative\<close> calls \<open>getLabelValue\<close> with the program counter as its
  first argument, which is the key that the function reads.
\<close>

fun generate :: "nat \<Rightarrow> 'p AstBase \<Rightarrow> Address \<Rightarrow> Labels
                   \<Rightarrow> (('p CompilationError + number list) \<times> Labels) option" where
  "generate n (Value16 position e) pc s =
     (case eval n e pc True s of
        None \<Rightarrow> None
      | Some (None, s') \<Rightarrow>
          Some (Inl (CompilationError position
                  [Text ''Not able to determine the 16-bits value'']), s')
      | Some (Some v, s') \<Rightarrow>
          Some (if js_lt v (Integer (- 65536)) \<or> js_gt v (Integer 65535)
                then Inl (CompilationError position [Text ''Invalid 16-bits value: '', Num v])
                else let v = (if js_lt v (Integer 0) then js_add (Integer 65536) v else v)
                     in Inr [js_and v (Integer 0x00FF),
                             js_shr (js_and v (Integer 0xFF00)) (Integer 8)],
                s'))"
| "generate n (Value8 position e) pc s =
     (case eval n e pc True s of
        None \<Rightarrow> None
      | Some (None, s') \<Rightarrow>
          Some (Inl (CompilationError position
                  [Text ''Not able to determine the 8-bits value'']), s')
      | Some (Some v, s') \<Rightarrow>
          Some (if js_lt v (Integer (- 256)) \<or> js_gt v (Integer 255)
                then Inl (CompilationError position [Text ''Invalid 8-bits value: '', Num v])
                else let v = (if js_lt v (Integer 0) then js_add (Integer 256) v else v)
                     in Inr [v],
                s'))"
| "generate n (ValueNeg8 position e) pc s =
     (case eval n e pc True s of
        None \<Rightarrow> None
      | Some (None, s') \<Rightarrow>
          Some (Inl (CompilationError position
                  [Text ''Not able to determine the 8-bits value'']), s')
      | Some (Some v, s') \<Rightarrow>
          Some (let v = js_neg v in
                if js_lt v (Integer (- 256)) \<or> js_gt v (Integer 255)
                then Inl (CompilationError position [Text ''Invalid 8-bits value: '', Num v])
                else let v = (if js_lt v (Integer 0) then js_add (Integer 256) v else v)
                     in Inr [v],
                s'))"
| "generate n (Jr position e) pc s =
     (case eval n e pc True s of
        None \<Rightarrow> None
      | Some (None, s') \<Rightarrow>
          Some (Inl (CompilationError position
                  [Text ''Not able to determine the offset value'']), s')
      | Some (Some offset, s') \<Rightarrow>
          Some (if js_lt offset (Integer (- 126)) \<or> js_gt offset (Integer 129)
                then Inl (CompilationError position
                       [Text ''Invalid offset for JR instruction: '', Num offset])
                else let offset = js_sub offset (Integer 2);
                         offset = (if js_lt offset (Integer 0)
                                   then js_add (Integer 256) offset else offset)
                     in Inr [offset],
                s'))"
| "generate n (JrRelative position label) pc s =
     (case pc of
        Null \<Rightarrow>
          Some (Inl (CompilationError position [Text ''Not able to determine PC value'']), s)
      | Undefined \<Rightarrow>
          Some (Inl (CompilationError position [Text ''Not able to determine PC value'']), s)
      | Addr pc' \<Rightarrow>
          (case getLabelValue n (At pc) s of
             None \<Rightarrow> None
           | Some (None, s') \<Rightarrow>
               Some (Inl (CompilationError position
                       [Text ''Not able to determine the value of label '', Text [CHR 0x27],
                        Text label, Text [CHR 0x27]]), s')
           | Some (Some targetAddress, s') \<Rightarrow>
               Some (let offset = js_sub targetAddress pc' in
                     if js_lt offset (Integer (- 126)) \<or> js_gt offset (Integer 129)
                     then Inl (CompilationError position
                            [Text ''Label '', Text label,
                             Text '' is to far from JR instruction: '', Num offset,
                             Text '' bytes''])
                     else let offset = js_sub offset (Integer 2);
                              offset = (if js_lt offset (Integer 0)
                                        then js_add (Integer 256) offset else offset)
                          in Inr [offset],
                     s')))"

section \<open>Arithmetic of the encodings\<close>

lemma and_255: "(v::int) AND 255 = v mod 256"
proof -
  have "v AND mask 8 = take_bit 8 v"
    by (simp add: take_bit_eq_mask)
  then show ?thesis
    by (simp add: take_bit_eq_mod mask_eq_exp_minus_1)
qed

lemma sint_small:
  "- 2147483648 \<le> k \<Longrightarrow> k < 2147483648 \<Longrightarrow> sint (word_of_int k :: 32 word) = k"
  by (simp add: sint_sbintrunc' signed_take_bit_int_eq_self)

lemma high_byte_int:
  assumes "0 \<le> v" "v \<le> 65535"
  shows "drop_bit 8 ((v::int) AND 0xFF00) = v div 256"
proof -
  have "drop_bit 8 (v AND 0xFF00) = drop_bit 8 v AND drop_bit 8 (0xFF00::int)"
    by (rule drop_bit_and)
  also have "\<dots> = (v div 256) AND 255"
    by (simp add: drop_bit_eq_div)
  also have "\<dots> = (v div 256) mod 256"
    by (rule and_255)
  also have "\<dots> = v div 256"
    using assms by simp
  finally show ?thesis .
qed

lemma js_and_low: "js_and (Integer v) (Integer 255) = Integer (v mod 256)"
proof -
  have "ToInt32 (Integer v) AND ToInt32 (Integer 255) = word_of_int (v AND 255)"
    by (simp add: of_int_and_eq)
  moreover have "sint (word_of_int (v mod 256) :: 32 word) = v mod 256"
    by (rule sint_small) (simp_all add: order.strict_trans1 [OF _ pos_mod_bound [of 256 v]])
  ultimately show ?thesis
    by (simp add: js_and_def and_255)
qed

lemma js_shr_high:
  assumes "0 \<le> v" "v \<le> 65535"
  shows "js_shr (js_and (Integer v) (Integer 0xFF00)) (Integer 8) = Integer (v div 256)"
proof -
  have w: "ToInt32 (Integer v) AND ToInt32 (Integer 0xFF00) = word_of_int (v AND 0xFF00)"
    by (simp add: of_int_and_eq)
  have r: "0 \<le> v AND 0xFF00" "v AND 0xFF00 \<le> 0xFF00"
    by (simp_all add: AND_upper2')
  have s: "sint (word_of_int (v AND 0xFF00) :: 32 word) = v AND 0xFF00"
    by (rule sint_small) (use r in linarith)+
  have c: "shiftCount (Integer 8) = 8"
    by (simp add: shiftCount_def)
  have "js_shr (js_and (Integer v) (Integer 0xFF00)) (Integer 8)
          = Integer (drop_bit 8 (sint (word_of_int (v AND 0xFF00) :: 32 word)))"
    unfolding js_shr_def js_and_def w c s
    by (simp add: s sint_signed_drop_bit_eq)
  also have "\<dots> = Integer (v div 256)"
    by (simp only: s high_byte_int [OF assms])
  finally show ?thesis .
qed


section \<open>Facts about the table\<close>

lemma getLabelValue_cases [consumes 1, case_names absent known noexpr unresolved resolved]:
  assumes "getLabelValue n name s = Some (r, s')"
  obtains
    "map_of s name = None" "r = None"
      "s' = AList.update name
              \<lparr>expression = None, value = Some (Integer 0), known = False, used = True\<rparr> s"
  | l where "map_of s name = Some l" "known l" "r = value l"
      "s' = AList.map_entry name (\<lambda>l. l\<lparr>used := True\<rparr>) s"
  | l where "map_of s name = Some l" "\<not> known l" "expression l = None" "r = None"
      "s' = AList.map_entry name (\<lambda>l. l\<lparr>used := True\<rparr>) s"
  | l e m where "map_of s name = Some l" "\<not> known l" "expression l = Some e" "n = Suc m"
      "eval m e Undefined False (AList.map_entry name (\<lambda>l. l\<lparr>used := True\<rparr>) s) = Some (None, s')"
      "r = None"
  | l e m v s2 where "map_of s name = Some l" "\<not> known l" "expression l = Some e" "n = Suc m"
      "eval m e Undefined False (AList.map_entry name (\<lambda>l. l\<lparr>used := True\<rparr>) s)
         = Some (Some v, s2)"
      "r = Some v"
      "s' = AList.map_entry name (\<lambda>l. l\<lparr>value := Some v, known := True\<rparr>) s2"
  using assms
  by (auto simp: getLabelValue.simps Let_def split: option.splits if_splits nat.splits)

lemma growsD1:
  "grows s s' \<Longrightarrow> map_of s k = Some l \<Longrightarrow>
     \<exists>l'. map_of s' k = Some l' \<and> expression l' = expression l
          \<and> (known l \<longrightarrow> known l' \<and> value l' = value l)"
  unfolding grows_def by blast

lemma growsD2:
  "grows s s' \<Longrightarrow> map_of s' k = Some l' \<Longrightarrow> map_of s k = None \<Longrightarrow> expression l' = None"
  unfolding grows_def by blast

lemma grows_refl: "grows s s"
  by (simp add: grows_def)

lemma grows_trans:
  assumes st: "grows s t" and tu: "grows t u"
  shows "grows s u"
  unfolding grows_def
proof (intro conjI allI impI)
  fix k l
  assume "map_of s k = Some l"
  with st obtain l1 where l1: "map_of t k = Some l1" "expression l1 = expression l"
    "known l \<longrightarrow> known l1 \<and> value l1 = value l"
    using growsD1 by blast
  from tu l1(1) obtain l2 where l2: "map_of u k = Some l2" "expression l2 = expression l1"
    "known l1 \<longrightarrow> known l2 \<and> value l2 = value l1"
    using growsD1 by blast
  show "\<exists>l'. map_of u k = Some l' \<and> expression l' = expression l
             \<and> (known l \<longrightarrow> known l' \<and> value l' = value l)"
    using l1 l2 by auto
next
  fix k l'
  assume u: "map_of u k = Some l'" and s: "map_of s k = None"
  show "expression l' = None"
  proof (cases "map_of t k")
    case None
    with tu u show ?thesis by (rule growsD2)
  next
    case (Some l1)
    with st s have "expression l1 = None" by (simp add: growsD2)
    moreover from tu Some obtain l2 where "map_of u k = Some l2" "expression l2 = expression l1"
      using growsD1 by blast
    ultimately show ?thesis using u by simp
  qed
qed

lemma grows_used: "grows s (AList.map_entry name (\<lambda>l. l\<lparr>used := True\<rparr>) s)"
  by (auto simp: grows_def map_of_map_entry split: option.splits)

lemma grows_new:
  "map_of s name = None \<Longrightarrow> expression x = None \<Longrightarrow> grows s (AList.update name x s)"
  by (auto simp: grows_def update_conv')

lemma grows_resolve:
  assumes st: "grows s t" and l: "map_of s name = Some l" "\<not> known l"
  shows "grows s (AList.map_entry name (\<lambda>l. l\<lparr>value := v, known := b\<rparr>) t)"
  unfolding grows_def
proof (intro conjI allI impI)
  fix k l0
  assume k: "map_of s k = Some l0"
  with st obtain l1 where l1: "map_of t k = Some l1" "expression l1 = expression l0"
    "known l0 \<longrightarrow> known l1 \<and> value l1 = value l0"
    using growsD1 by blast
  show "\<exists>l'. map_of (AList.map_entry name (\<lambda>l. l\<lparr>value := v, known := b\<rparr>) t) k = Some l'
             \<and> expression l' = expression l0
             \<and> (known l0 \<longrightarrow> known l' \<and> value l' = value l0)"
  proof (cases "k = name")
    case True
    with k l have "\<not> known l0" by simp
    with True l1 show ?thesis by (simp add: map_of_map_entry)
  next
    case False
    with l1 show ?thesis by (simp add: map_of_map_entry)
  qed
next
  fix k l'
  assume a: "map_of (AList.map_entry name (\<lambda>l. l\<lparr>value := v, known := b\<rparr>) t) k = Some l'"
    and n: "map_of s k = None"
  from n l have "k \<noteq> name" by auto
  with a have "map_of t k = Some l'" by (simp add: map_of_map_entry)
  with st show "expression l' = None" using n by (rule growsD2)
qed

lemma eval_getLabelValue_grows:
  "eval n e pc m s = Some (r, s') \<Longrightarrow> grows s s'"
  "getLabelValue n name s = Some (r, s') \<Longrightarrow> grows s s'"
proof (induction n e pc m s and n name s arbitrary: r s' and r s'
       rule: eval_getLabelValue.induct)
  case (1 n nn pc mustExist s)
  then show ?case by (simp add: grows_refl)
next
  case (2 n name pc mustExist s)
  then show ?case by simp
next
  case (3 n e op pc mustExist s)
  then show ?case by (auto split: option.splits)
next
  case (4 n left right op pc mustExist s)
  from "4.prems" obtain rv s1 where r: "eval n right pc mustExist s = Some (rv, s1)"
    by (auto split: option.splits)
  then have g1: "grows s s1" by (rule "4.IH"(1))
  show ?case
  proof (cases left)
    case None
    with "4.prems" r g1 show ?thesis by simp
  next
    case (Some l)
    with "4.prems" r obtain lv where l: "eval n l pc mustExist s1 = Some (lv, s')"
      by (auto split: option.splits)
    from "4.IH"(2) [OF r refl Some l] have "grows s1 s'" .
    with g1 show ?thesis by (rule grows_trans)
  qed
next
  case (5 n name s)
  from "5.prems" show ?case
  proof (cases rule: getLabelValue_cases)
    case absent
    then show ?thesis by (simp add: grows_new)
  next
    case (known l)
    then show ?thesis by (simp add: grows_used)
  next
    case (noexpr l)
    then show ?thesis by (simp add: grows_used)
  next
    case (unresolved l e m)
    from "5.IH" [OF unresolved(1) refl unresolved(2,3,4) unresolved(5)]
    have "grows (AList.map_entry name (\<lambda>l. l\<lparr>used := True\<rparr>) s) s'" .
    with grows_used show ?thesis by (rule grows_trans)
  next
    case (resolved l e m v s2)
    from "5.IH" [OF resolved(1) refl resolved(2,3,4) resolved(5)]
    have "grows (AList.map_entry name (\<lambda>l. l\<lparr>used := True\<rparr>) s) s2" .
    with grows_used have "grows s s2" by (rule grows_trans)
    then show ?thesis unfolding resolved(7) using resolved(1,2) by (rule grows_resolve)
  qed
qed


lemma values_stored_update:
  "values_stored s \<Longrightarrow> value x \<noteq> None \<Longrightarrow> values_stored (AList.update k x s)"
  unfolding values_stored_def by (induction s) auto

lemma values_stored_map_entry:
  "values_stored s \<Longrightarrow> (\<And>l. value l \<noteq> None \<Longrightarrow> value (f l) \<noteq> None)
     \<Longrightarrow> values_stored (AList.map_entry k f s)"
  unfolding values_stored_def by (induction s) auto

lemma values_stored_addLabel: "values_stored s \<Longrightarrow> values_stored (addLabel k v s)"
  by (auto simp: addLabel_def values_stored_update values_stored_map_entry
           split: option.splits)

lemma values_stored_addLabelExpression:
  "values_stored s \<Longrightarrow> values_stored (addLabelExpression k e s)"
  by (auto simp: addLabelExpression_def values_stored_update values_stored_map_entry
           split: option.splits)

lemma values_stored_eval:
  "eval n e pc m s = Some (r, s') \<Longrightarrow> values_stored s \<Longrightarrow> values_stored s'"
  "getLabelValue n name s = Some (r, s') \<Longrightarrow> values_stored s \<Longrightarrow> values_stored s'"
proof (induction n e pc m s and n name s arbitrary: r s' and r s'
       rule: eval_getLabelValue.induct)
  case (1 n nn pc mustExist s)
  then show ?case by simp
next
  case (2 n name pc mustExist s)
  then show ?case by simp
next
  case (3 n e op pc mustExist s)
  then show ?case by (auto split: option.splits)
next
  case (4 n left right op pc mustExist s)
  from "4.prems" obtain rv s1 where r: "eval n right pc mustExist s = Some (rv, s1)"
    by (auto split: option.splits)
  then have g1: "values_stored s1" using "4.prems"(2) by (rule "4.IH"(1))
  show ?case
  proof (cases left)
    case None
    with "4.prems" r g1 show ?thesis by simp
  next
    case (Some l)
    with "4.prems" r obtain lv where l: "eval n l pc mustExist s1 = Some (lv, s')"
      by (auto split: option.splits)
    from "4.IH"(2) [OF r refl Some l g1] show ?thesis .
  qed
next
  case (5 n name s)
  note vs = \<open>values_stored s\<close>
  then have u: "values_stored (AList.map_entry name (\<lambda>l. l\<lparr>used := True\<rparr>) s)"
    by (rule values_stored_map_entry) simp
  from "5.prems"(1) show ?case
  proof (cases rule: getLabelValue_cases)
    case absent
    with vs show ?thesis by (simp add: values_stored_update)
  next
    case (known l)
    with u show ?thesis by simp
  next
    case (noexpr l)
    with u show ?thesis by simp
  next
    case (unresolved l e m)
    from "5.IH" [OF unresolved(1) refl unresolved(2,3,4) unresolved(5) u]
    show ?thesis .
  next
    case (resolved l e m v s2)
    from "5.IH" [OF resolved(1) refl resolved(2,3,4) resolved(5) u]
    have "values_stored s2" .
    then show ?thesis unfolding resolved(7) by (rule values_stored_map_entry) simp
  qed
qed

lemma reachable_values_stored: "reachable s \<Longrightarrow> values_stored s"
proof (induction rule: reachable.induct)
  case (reach_reset s)
  show ?case by (simp add: resetLabels_def values_stored_def)
next
  case (reach_addLabel s k v)
  then show ?case by (simp add: values_stored_addLabel)
next
  case (reach_addLabelExpression s k e)
  then show ?case by (simp add: values_stored_addLabelExpression)
next
  case (reach_getLabelValue s n k r s')
  then show ?case by (simp add: values_stored_eval(2))
next
  case (reach_eval s n e pc m r s')
  then show ?case by (simp add: values_stored_eval(1))
qed

lemma getUnknownLabels_reachable: "reachable s \<Longrightarrow> getUnknownLabels s = []"
proof -
  assume "reachable s"
  then have "values_stored s" by (rule reachable_values_stored)
  then have "filter (\<lambda>(name, label). \<not> known label \<and> value label = None) s = []"
    unfolding values_stored_def by (induction s) auto
  then show ?thesis by (simp add: getUnknownLabels_def)
qed

lemma map_of_addLabel:
  "map_of (addLabel name v s) k =
     (if k = Name name
      then Some (case map_of s (Name name) of
                   None \<Rightarrow> \<lparr>expression = None, value = Some (orZero v), known = (v \<noteq> None),
                             used = False\<rparr>
                 | Some l \<Rightarrow> l\<lparr>value := Some (orZero v), known := (v \<noteq> None)\<rparr>)
      else map_of s k)"
  by (auto simp: addLabel_def update_conv' map_of_map_entry split: option.splits)

lemma map_of_addLabelExpression:
  "map_of (addLabelExpression name e s) k =
     (if k = Name name
      then Some (case map_of s (Name name) of
                   None \<Rightarrow> \<lparr>expression = Some e, value = Some (Integer 0), known = False,
                             used = False\<rparr>
                 | Some l \<Rightarrow> if known l then l else l\<lparr>expression := Some e\<rparr>)
      else map_of s k)"
  by (auto simp: addLabelExpression_def update_conv' map_of_map_entry split: option.splits)

lemma getLabelValue_known:
  "map_of s name = Some l \<Longrightarrow> known l \<Longrightarrow>
     getLabelValue n name s = Some (value l, AList.map_entry name (\<lambda>l. l\<lparr>used := True\<rparr>) s)"
  by (simp add: getLabelValue.simps)

lemma getLabelValue_no_expression:
  "map_of s name = Some l \<Longrightarrow> \<not> known l \<Longrightarrow> expression l = None \<Longrightarrow>
     getLabelValue n name s = Some (None, AList.map_entry name (\<lambda>l. l\<lparr>used := True\<rparr>) s)"
  by (simp add: getLabelValue.simps)

lemma run_keeping_known:
  assumes "run_keeping name s t" "map_of s name = Some l" "known l"
  shows "\<exists>l'. map_of t name = Some l' \<and> known l' \<and> value l' = value l"
  using assms
proof (induction rule: run_keeping.induct)
  case keep_refl
  then show ?case by simp
next
  case (keep_addLabel t k v)
  then show ?case by (simp add: map_of_addLabel)
next
  case (keep_addLabelExpression t k e)
  then show ?case by (auto simp: map_of_addLabelExpression)
next
  case (keep_getLabelValue t n k r t')
  then obtain l1 where "map_of t name = Some l1" "known l1" "value l1 = value l" by auto
  moreover from keep_getLabelValue(2) have "grows t t'" by (rule eval_getLabelValue_grows(2))
  ultimately show ?case using growsD1 by fastforce
next
  case (keep_eval t n e pc m r t')
  then obtain l1 where "map_of t name = Some l1" "known l1" "value l1 = value l" by auto
  moreover from keep_eval(2) have "grows t t'" by (rule eval_getLabelValue_grows(1))
  ultimately show ?case using growsD1 by fastforce
qed

lemma fold_addLabel_direct:
  "map_of s (Name name) = None \<or> (\<exists>l. map_of s (Name name) = Some l \<and> expression l = None) \<Longrightarrow>
   map_of (fold (addLabel name) vs s) (Name name) = None
   \<or> (\<exists>l. map_of (fold (addLabel name) vs s) (Name name) = Some l \<and> expression l = None)"
proof (induction vs arbitrary: s)
  case Nil
  then show ?case by simp
next
  case (Cons v vs)
  have "\<exists>l. map_of (addLabel name v s) (Name name) = Some l \<and> expression l = None"
    using Cons.prems by (auto simp: map_of_addLabel)
  then show ?case using Cons.IH [of "addLabel name v s"] by simp
qed

lemma bound_mono:
  "eval n e pc m s = Some (r, s') \<Longrightarrow> eval (Suc n) e pc m s = Some (r, s')"
  "getLabelValue n x s = Some (r, s') \<Longrightarrow> getLabelValue (Suc n) x s = Some (r, s')"
proof (induction n e pc m s and n x s arbitrary: r s' and r s'
       rule: eval_getLabelValue.induct)
  case (1 n nn pc mustExist s)
  then show ?case by simp
next
  case (2 n name pc mustExist s)
  then show ?case by simp
next
  case (3 n e op pc mustExist s)
  then show ?case by (auto split: option.splits)
next
  case (4 n left right op pc mustExist s)
  from "4.prems" obtain rv s1 where r: "eval n right pc mustExist s = Some (rv, s1)"
    by (auto split: option.splits)
  then have r': "eval (Suc n) right pc mustExist s = Some (rv, s1)" by (rule "4.IH"(1))
  show ?case
  proof (cases left)
    case None
    with "4.prems" r r' show ?thesis by simp
  next
    case (Some l)
    with "4.prems" r obtain lv s2 where l: "eval n l pc mustExist s1 = Some (lv, s2)"
      by (auto split: option.splits)
    from "4.IH"(2) [OF r refl Some l] have "eval (Suc n) l pc mustExist s1 = Some (lv, s2)" .
    with "4.prems" r r' l Some show ?thesis by simp
  qed
next
  case (5 n name s)
  from "5.prems" show ?case
  proof (cases rule: getLabelValue_cases)
    case absent
    then show ?thesis by (simp add: getLabelValue.simps)
  next
    case (known l)
    then show ?thesis by (simp add: getLabelValue.simps)
  next
    case (noexpr l)
    then show ?thesis by (simp add: getLabelValue.simps)
  next
    case (unresolved l e k)
    from "5.IH" [OF unresolved(1) refl unresolved(2,3,4) unresolved(5)]
    show ?thesis using unresolved by (simp add: getLabelValue.simps [of "Suc (Suc k)"])
  next
    case (resolved l e k v s2)
    from "5.IH" [OF resolved(1) refl resolved(2,3,4) resolved(5)]
    show ?thesis using resolved by (simp add: getLabelValue.simps [of "Suc (Suc k)"])
  qed
qed

subsection \<open>Entries under program counters\<close>

lemma counters_unresolvedD:
  "counters_unresolved s \<Longrightarrow> map_of s (At a) = Some l \<Longrightarrow> \<not> known l \<and> expression l = None"
  unfolding counters_unresolved_def by blast

lemma counters_unresolved_used:
  "counters_unresolved s \<Longrightarrow> counters_unresolved (AList.map_entry k (\<lambda>l. l\<lparr>used := True\<rparr>) s)"
  by (auto simp: counters_unresolved_def map_of_map_entry split: option.splits if_splits)

lemma counters_unresolved_new:
  "counters_unresolved s \<Longrightarrow> (\<forall>a. k = At a \<longrightarrow> \<not> known x \<and> expression x = None)
     \<Longrightarrow> counters_unresolved (AList.update k x s)"
  by (auto simp: counters_unresolved_def update_conv')

lemma counters_unresolved_name:
  "counters_unresolved s \<Longrightarrow> counters_unresolved (AList.map_entry (Name x) f s)"
  by (auto simp: counters_unresolved_def map_of_map_entry)

lemma counters_unresolved_addLabel:
  "counters_unresolved s \<Longrightarrow> counters_unresolved (addLabel name v s)"
  by (auto simp: addLabel_def counters_unresolved_new counters_unresolved_name
           split: option.splits)

lemma counters_unresolved_addLabelExpression:
  "counters_unresolved s \<Longrightarrow> counters_unresolved (addLabelExpression name e s)"
  by (auto simp: addLabelExpression_def counters_unresolved_new counters_unresolved_name
           split: option.splits)

lemma getLabelValue_counter:
  assumes "counters_unresolved s"
  shows "getLabelValue n (At a) s =
           Some (None,
             case map_of s (At a) of
               None \<Rightarrow> AList.update (At a)
                         \<lparr>expression = None, value = Some (Integer 0), known = False,
                            used = True\<rparr> s
             | Some l \<Rightarrow> AList.map_entry (At a) (\<lambda>l. l\<lparr>used := True\<rparr>) s)"
proof (cases "map_of s (At a)")
  case None
  then show ?thesis by (simp add: getLabelValue.simps)
next
  case (Some l)
  with assms have "\<not> known l" "expression l = None" by (auto dest: counters_unresolvedD)
  with Some show ?thesis by (simp add: getLabelValue.simps)
qed

lemma counters_unresolved_eval:
  "eval n e pc m s = Some (r, s') \<Longrightarrow> counters_unresolved s \<Longrightarrow> counters_unresolved s'"
  "getLabelValue n k s = Some (r, s') \<Longrightarrow> counters_unresolved s \<Longrightarrow> counters_unresolved s'"
proof (induction n e pc m s and n k s arbitrary: r s' and r s'
       rule: eval_getLabelValue.induct)
  case (1 n nn pc mustExist s)
  then show ?case by simp
next
  case (2 n name pc mustExist s)
  then show ?case by simp
next
  case (3 n e op pc mustExist s)
  then show ?case by (auto split: option.splits)
next
  case (4 n left right op pc mustExist s)
  from "4.prems" obtain rv s1 where r: "eval n right pc mustExist s = Some (rv, s1)"
    by (auto split: option.splits)
  then have g1: "counters_unresolved s1" using "4.prems"(2) by (rule "4.IH"(1))
  show ?case
  proof (cases left)
    case None
    with "4.prems" r g1 show ?thesis by simp
  next
    case (Some l)
    with "4.prems" r obtain lv where l: "eval n l pc mustExist s1 = Some (lv, s')"
      by (auto split: option.splits)
    from "4.IH"(2) [OF r refl Some l g1] show ?thesis .
  qed
next
  case (5 n k s)
  note cu = \<open>counters_unresolved s\<close>
  then have u: "counters_unresolved (AList.map_entry k (\<lambda>l. l\<lparr>used := True\<rparr>) s)"
    by (rule counters_unresolved_used)
  from "5.prems"(1) show ?case
  proof (cases rule: getLabelValue_cases)
    case absent
    with cu show ?thesis by (simp add: counters_unresolved_new)
  next
    case (known l)
    with u show ?thesis by simp
  next
    case (noexpr l)
    with u show ?thesis by simp
  next
    case (unresolved l e j)
    from "5.IH" [OF unresolved(1) refl unresolved(2,3,4) unresolved(5) u]
    show ?thesis .
  next
    case (resolved l e j v s2)
    from cu resolved(1,3) obtain x where k: "k = Name x"
      by (cases k) (auto dest: counters_unresolvedD)
    from "5.IH" [OF resolved(1) refl resolved(2,3,4) resolved(5) u]
    have "counters_unresolved s2" .
    then show ?thesis unfolding resolved(7) k by (rule counters_unresolved_name)
  qed
qed

lemma reachable_counters_unresolved: "reachable s \<Longrightarrow> counters_unresolved s"
proof (induction rule: reachable.induct)
  case (reach_reset s)
  show ?case by (simp add: resetLabels_def counters_unresolved_def)
next
  case (reach_addLabel s k v)
  then show ?case by (simp add: counters_unresolved_addLabel)
next
  case (reach_addLabelExpression s k e)
  then show ?case by (simp add: counters_unresolved_addLabelExpression)
next
  case (reach_getLabelValue s n k r s')
  then show ?case by (simp add: counters_unresolved_eval(2))
next
  case (reach_eval s n e pc m r s')
  then show ?case by (simp add: counters_unresolved_eval(1))
qed

lemma eval_returns:
  "counters_unresolved s \<Longrightarrow> \<exists>r s'. eval n e pc m s = Some (r, s')"
proof (induction e arbitrary: s)
  case (valueOf x)
  show ?case by simp
next
  case (labelValue x)
  then show ?case by (simp add: getLabelValue_counter)
next
  case (unaryOperation e op)
  from unaryOperation.IH [OF unaryOperation.prems] show ?case by auto
next
  case (binaryOperation left right bop)
  from binaryOperation.IH(2) [OF binaryOperation.prems]
  obtain rv s1 where r: "eval n right pc m s = Some (rv, s1)" by blast
  with binaryOperation.prems have c1: "counters_unresolved s1"
    by (simp add: counters_unresolved_eval(1))
  show ?case
  proof (cases left)
    case None
    with r show ?thesis by simp
  next
    case (Some l)
    then have "l \<in> set_option left" by simp
    from binaryOperation.IH(1) [OF this c1]
    obtain lv s2 where "eval n l pc m s1 = Some (lv, s2)" by blast
    with r Some show ?thesis by simp
  qed
qed

lemma eval_keeps_names:
  "eval n e pc m s = Some (r, s') \<Longrightarrow> map_of s' (Name x) = map_of s (Name x)"
  "getLabelValue n k s = Some (r, s') \<Longrightarrow> k \<noteq> Name x
     \<Longrightarrow> map_of s' (Name x) = map_of s (Name x)"
proof (induction n e pc m s and n k s arbitrary: r s' and r s'
       rule: eval_getLabelValue.induct)
  case (1 n nn pc mustExist s)
  then show ?case by simp
next
  case (2 n name pc mustExist s)
  then show ?case by simp
next
  case (3 n e op pc mustExist s)
  then show ?case by (auto split: option.splits)
next
  case (4 n left right op pc mustExist s)
  from "4.prems" obtain rv s1 where r: "eval n right pc mustExist s = Some (rv, s1)"
    by (auto split: option.splits)
  then have m1: "map_of s1 (Name x) = map_of s (Name x)" by (rule "4.IH"(1))
  show ?case
  proof (cases left)
    case None
    with "4.prems" r m1 show ?thesis by simp
  next
    case (Some l)
    with "4.prems" r obtain lv where l: "eval n l pc mustExist s1 = Some (lv, s')"
      by (auto split: option.splits)
    from "4.IH"(2) [OF r refl Some l] m1 show ?thesis by simp
  qed
next
  case (5 n k s)
  note ne = \<open>k \<noteq> Name x\<close>
  from "5.prems"(1) show ?case
  proof (cases rule: getLabelValue_cases)
    case absent
    with ne show ?thesis by (simp add: update_conv')
  next
    case (known l)
    with ne show ?thesis by (simp add: map_of_map_entry)
  next
    case (noexpr l)
    with ne show ?thesis by (simp add: map_of_map_entry)
  next
    case (unresolved l e j)
    from "5.IH" [OF unresolved(1) refl unresolved(2,3,4) unresolved(5)]
    show ?thesis using ne by (simp add: map_of_map_entry)
  next
    case (resolved l e j v s2)
    from "5.IH" [OF resolved(1) refl resolved(2,3,4) resolved(5)]
    show ?thesis unfolding resolved(7) using ne by (simp add: map_of_map_entry)
  qed
qed

section \<open>The emitters encode as specified\<close>

text \<open>
  C3. The 16-bit emitter raises an error at its position when the expression is
  unresolved or its value \<open>v\<close> lies outside \<open>[-65536, 65535]\<close>; otherwise it adds 65536
  to a negative \<open>v\<close> and emits two bytes, the low byte first. In particular \<open>0x1234\<close>
  gives \<open>[0x34, 0x12]\<close> and \<open>-1\<close> gives \<open>[0xFF, 0xFF]\<close>.
\<close>

theorem Value16_generate_little_endian:
  assumes "eval n e pc True s = Some (r, s')"
  shows "(r = None \<longrightarrow>
            generate n (Value16 position e) pc s =
              Some (Inl (CompilationError position
                      [Text ''Not able to determine the 16-bits value'']), s'))
       \<and> (\<forall>v. r = Some (Integer v) \<longrightarrow>
            generate n (Value16 position e) pc s =
              Some (if v < - 65536 \<or> 65535 < v
                    then Inl (CompilationError position
                           [Text ''Invalid 16-bits value: '', Num (Integer v)])
                    else Inr [Integer ((if v < 0 then 65536 + v else v) mod 256),
                              Integer ((if v < 0 then 65536 + v else v) div 256)], s'))
       \<and> generate n (Value16 position (valueOf (Integer 0x1234))) pc s =
            Some (Inr [Integer 0x34, Integer 0x12], s)
       \<and> generate n (Value16 position (valueOf (Integer (- 1)))) pc s =
            Some (Inr [Integer 0xFF, Integer 0xFF], s)"
  using assms
  by (auto simp: js_gt_def js_and_low [simplified] js_shr_high [simplified])

theorem Value16_generate_little_endian_witness:
  "eval 0 (valueOf (Integer 258)) Undefined True [] = Some (Some (Integer 258), [])
   \<and> generate 0 (Value16 (7::nat) (valueOf (Integer 258))) Undefined []
         = Some (Inr [Integer 2, Integer 1], [])"
  using Value16_generate_little_endian
          [of 0 "valueOf (Integer 258)" Undefined "[]" "Some (Integer 258)" "[]" "7::nat"]
  by simp

text \<open>
  C4. Both 8-bit emitters emit the single byte \<open>256 + v\<close> for \<open>-256 \<le> v \<le> -1\<close>, the
  single byte \<open>v\<close> for \<open>0 \<le> v \<le> 255\<close>, and raise a range error for any other \<open>v\<close>; the
  negated emitter applies this rule to the negation of the value of its expression.
\<close>

theorem Value8_generate_fold:
  assumes "eval n e pc True s = Some (r, s')"
  shows "(r = None \<longrightarrow>
            generate n (Value8 position e) pc s =
              Some (Inl (CompilationError position
                      [Text ''Not able to determine the 8-bits value'']), s')
          \<and> generate n (ValueNeg8 position e) pc s =
              Some (Inl (CompilationError position
                      [Text ''Not able to determine the 8-bits value'']), s'))
       \<and> (\<forall>v. r = Some (Integer v) \<longrightarrow>
            generate n (Value8 position e) pc s =
              Some (if - 256 \<le> v \<and> v \<le> - 1 then Inr [Integer (256 + v)]
                    else if 0 \<le> v \<and> v \<le> 255 then Inr [Integer v]
                    else Inl (CompilationError position
                           [Text ''Invalid 8-bits value: '', Num (Integer v)]), s')
          \<and> generate n (ValueNeg8 position e) pc s =
              Some (if - 256 \<le> - v \<and> - v \<le> - 1 then Inr [Integer (256 + (- v))]
                    else if 0 \<le> - v \<and> - v \<le> 255 then Inr [Integer (- v)]
                    else Inl (CompilationError position
                           [Text ''Invalid 8-bits value: '', Num (Integer (- v))]), s'))"
  using assms by (auto simp: js_gt_def)

theorem Value8_generate_fold_witness:
  "eval 0 (valueOf (Integer (- 3))) Undefined True [] = Some (Some (Integer (- 3)), [])
   \<and> generate 0 (Value8 (7::nat) (valueOf (Integer (- 3)))) Undefined []
         = Some (Inr [Integer 253], [])
   \<and> generate 0 (ValueNeg8 (7::nat) (valueOf (Integer (- 3)))) Undefined []
         = Some (Inr [Integer 3], [])"
  using Value8_generate_fold
          [of 0 "valueOf (Integer (- 3))" Undefined "[]" "Some (Integer (- 3))" "[]" "7::nat"]
  by simp

text \<open>
  The absolute emitter \<open>Jr\<close> checks the offset before the bias against \<open>[-126, 129]\<close>,
  subtracts 2, adds 256 to a negative result and emits that one byte.
\<close>

lemma Jr_generate_absolute:
  assumes "eval n e pc True s = Some (Some (Integer off), s')"
  shows "generate n (Jr position e) pc s =
           Some (if off < - 126 \<or> 129 < off
                 then Inl (CompilationError position
                        [Text ''Invalid offset for JR instruction: '', Num (Integer off)])
                 else Inr [Integer (if off - 2 < 0 then 256 + (off - 2) else off - 2)], s')"
  using assms by (auto simp: js_gt_def)

text \<open>
  In a table of a run, \<open>JrRelative\<close> at a program counter that is a number raises the
  error of an unresolved label, whatever the label: it reads the entry under the
  program counter, which no declaration writes.
\<close>

lemma JrRelative_generate_unresolved:
  assumes "counters_unresolved s"
  shows "\<exists>s'. generate n (JrRelative position label) (Addr a) s =
           Some (Inl (CompilationError position
                   [Text ''Not able to determine the value of label '', Text [CHR 0x27],
                    Text label, Text [CHR 0x27]]), s')"
  by (simp add: getLabelValue_counter [OF assms])

text \<open>
  C2. The claim for \<open>JrRelative\<close>: the offset is the value of the target label minus
  the program counter, so that at counter 100 a target of 102 gives the byte \<open>0x00\<close>, a
  target of 229 gives \<open>0x7F\<close> and a target of 230 raises the range error. The code
  passes the program counter where \<open>getLabelValue\<close> takes the name: it reads the entry
  under 100, finds none, stores a placeholder there and raises the error of an
  unresolved label, for each of the three targets.
\<close>

theorem JrRelative_generate_reads_counter:
  "generate n (JrRelative position ''L'') (Addr (Integer 100))
     (addLabel ''L'' (Some (Integer 102)) (resetLabels s))
     = Some (Inl (CompilationError position
               [Text ''Not able to determine the value of label '', Text [CHR 0x27],
                Text ''L'', Text [CHR 0x27]]),
         [(Name ''L'', \<lparr>expression = None, value = Some (Integer 102), known = True,
                         used = False\<rparr>),
          (At (Addr (Integer 100)),
             \<lparr>expression = None, value = Some (Integer 0), known = False, used = True\<rparr>)])
   \<and> map_option fst
        (generate n (JrRelative position ''L'') (Addr (Integer 100))
           (addLabel ''L'' (Some (Integer 229)) (resetLabels s)))
     = Some (Inl (CompilationError position
               [Text ''Not able to determine the value of label '', Text [CHR 0x27],
                Text ''L'', Text [CHR 0x27]]))
   \<and> map_option fst
        (generate n (JrRelative position ''L'') (Addr (Integer 100))
           (addLabel ''L'' (Some (Integer 230)) (resetLabels s)))
     = Some (Inl (CompilationError position
               [Text ''Not able to determine the value of label '', Text [CHR 0x27],
                Text ''L'', Text [CHR 0x27]]))"
  by (simp add: addLabel_def resetLabels_def orZero_def getLabelValue.simps)

section \<open>Division\<close>



section \<open>The symbol table behaves as specified\<close>

text \<open>
  C1. \<open>getUnknownLabels\<close> is specified to return the names that are neither known nor
  have a stored value, and so to include a label \<open>X\<close> that was only read. The code
  tests \<^verbatim>\<open>label.value == null\<close>, and every entry stores a number: after
  \<open>resetLabels\<close> and one \<open>getLabelValue\<close> of \<open>X\<close> the entry of \<open>X\<close> is unknown with
  the value 0, and \<open>getUnknownLabels\<close> returns the empty list.
\<close>

theorem getUnknownLabels_misses_read_label:
  "getLabelValue n (Name ''X'') (resetLabels s) =
     Some (None, [(Name ''X'', \<lparr>expression = None, value = Some (Integer 0), known = False,
                           used = True\<rparr>)])
   \<and> getUnknownLabels
        [(Name ''X'', \<lparr>expression = None, value = Some (Integer 0), known = False, used = True\<rparr>)]
       = []"
  by (simp add: getLabelValue.simps resetLabels_def getUnknownLabels_def)

text \<open>
  C6. For a label declared only through \<open>addLabel\<close>, the most recent \<open>addLabel\<close>
  determines what \<open>getLabelValue\<close> returns, whatever was declared before; a declaration
  of an entry that exists overwrites its value and its flag \<open>known\<close>.
\<close>

theorem addLabel_latest_wins:
  "(map_of s (Name name) = None \<or> (\<exists>l. map_of s (Name name) = Some l \<and> expression l = None) \<longrightarrow>
      map_option fst (getLabelValue n (Name name) (addLabel name v s)) = Some v)
   \<and> (map_of s (Name name) = None \<longrightarrow>
      map_option fst (getLabelValue n (Name name) (addLabel name v (fold (addLabel name) vs s)))
        = Some v)
   \<and> (run_keeping (Name name) (addLabel name (Some x) s) t \<longrightarrow>
      map_option fst (getLabelValue n (Name name) t) = Some (Some x))
   \<and> (\<forall>l. map_of s (Name name) = Some l \<longrightarrow>
      map_of (addLabel name v s) (Name name)
        = Some (l\<lparr>value := Some (orZero v), known := (v \<noteq> None)\<rparr>))"
proof (intro conjI impI allI)
  assume d: "map_of s (Name name) = None \<or> (\<exists>l. map_of s (Name name) = Some l \<and> expression l = None)"
  show "map_option fst (getLabelValue n (Name name) (addLabel name v s)) = Some v"
  proof (cases v)
    case None
    with d obtain l where "map_of (addLabel name v s) (Name name) = Some l" "\<not> known l"
      "expression l = None"
      by (auto simp: map_of_addLabel)
    then show ?thesis using None by (simp add: getLabelValue_no_expression)
  next
    case (Some a)
    then obtain l where "map_of (addLabel name v s) (Name name) = Some l" "known l" "value l = Some a"
      by (auto simp: map_of_addLabel orZero_def split: option.splits)
    then show ?thesis using Some by (simp add: getLabelValue_known)
  qed
next
  assume a: "map_of s (Name name) = None"
  then have d: "map_of (fold (addLabel name) vs s) (Name name) = None
    \<or> (\<exists>l. map_of (fold (addLabel name) vs s) (Name name) = Some l \<and> expression l = None)"
    by (intro fold_addLabel_direct) simp
  show "map_option fst (getLabelValue n (Name name) (addLabel name v (fold (addLabel name) vs s)))
          = Some v"
  proof (cases v)
    case None
    with d obtain l where "map_of (addLabel name v (fold (addLabel name) vs s)) (Name name) = Some l"
      "\<not> known l" "expression l = None"
      by (auto simp: map_of_addLabel)
    then show ?thesis using None by (simp add: getLabelValue_no_expression)
  next
    case (Some a)
    then obtain l where "map_of (addLabel name v (fold (addLabel name) vs s)) (Name name) = Some l"
      "known l" "value l = Some a"
      by (auto simp: map_of_addLabel orZero_def split: option.splits)
    then show ?thesis using Some by (simp add: getLabelValue_known)
  qed
next
  assume r: "run_keeping (Name name) (addLabel name (Some x) s) t"
  obtain l where "map_of (addLabel name (Some x) s) (Name name) = Some l" "known l"
    "value l = Some x"
    by (auto simp: map_of_addLabel orZero_def split: option.splits)
  with run_keeping_known [OF r] obtain l' where "map_of t (Name name) = Some l'" "known l'"
    "value l' = Some x"
    by fastforce
  then show "map_option fst (getLabelValue n (Name name) t) = Some (Some x)"
    by (simp add: getLabelValue_known)
next
  fix l assume "map_of s (Name name) = Some l"
  then show "map_of (addLabel name v s) (Name name)
               = Some (l\<lparr>value := Some (orZero v), known := (v \<noteq> None)\<rparr>)"
    by (simp add: map_of_addLabel)
qed


theorem addLabel_latest_wins_witness:
  "map_of ([] :: Labels) (Name ''A'') = None
   \<and> map_option fst (getLabelValue 0 (Name ''A'') (addLabel ''A'' (Some (Integer 5)) [])) =
        Some (Some (Integer 5))
   \<and> map_option fst
        (getLabelValue 0 (Name ''A'')
           (addLabel ''A'' None (fold (addLabel ''A'') [Some (Integer 1), Some (Integer 2)] [])))
        = Some None
   \<and> run_keeping (Name ''A'') (addLabel ''A'' (Some (Integer 5)) [])
        (addLabel ''B'' (Some (Integer 9)) (addLabel ''A'' (Some (Integer 5)) []))
   \<and> map_option fst
        (getLabelValue 0 (Name ''A'')
           (addLabel ''B'' (Some (Integer 9)) (addLabel ''A'' (Some (Integer 5)) [])))
        = Some (Some (Integer 5))
   \<and> map_of (addLabel ''A'' (Some (Integer 1)) []) (Name ''A'')
        = Some \<lparr>expression = None, value = Some (Integer 1), known = True, used = False\<rparr>
   \<and> map_of (addLabel ''A'' (Some (Integer 2)) (addLabel ''A'' (Some (Integer 1)) [])) (Name ''A'')
        = Some \<lparr>expression = None, value = Some (Integer 2), known = True, used = False\<rparr>"
proof -
  have k: "run_keeping (Name ''A'') (addLabel ''A'' (Some (Integer 5)) [])
             (addLabel ''B'' (Some (Integer 9)) (addLabel ''A'' (Some (Integer 5)) []))"
    by (rule keep_addLabel [OF keep_refl]) simp
  have m: "map_of (addLabel ''A'' (Some (Integer 1)) []) (Name ''A'')
        = Some \<lparr>expression = None, value = Some (Integer 1), known = True, used = False\<rparr>"
    by (simp add: addLabel_def orZero_def)
  show ?thesis
    using k m
      addLabel_latest_wins [of "[]" "''A''" 0 "Some (Integer 5)" "[]" "Integer 5"
         "addLabel ''B'' (Some (Integer 9)) (addLabel ''A'' (Some (Integer 5)) [])"]
      addLabel_latest_wins [of "[]" "''A''" 0 None "[Some (Integer 1), Some (Integer 2)]"]
      addLabel_latest_wins [of "addLabel ''A'' (Some (Integer 1)) []" "''A''" 0
         "Some (Integer 2)"]
    by (simp add: orZero_def)
qed

text \<open>
  C10. \<open>addLabel\<close> leaves the stored expression of an existing entry in place. A label
  declared by \<open>addLabelExpression\<close> and then by \<open>addLabel\<close> with a null value keeps
  its expression, and the next \<open>getLabelValue\<close> evaluates it: with the expression 7 it
  returns 7 and not null.
\<close>

theorem addLabel_keeps_expression:
  "(\<forall>l. map_of s k = Some l \<longrightarrow>
      (\<exists>l'. map_of (addLabel name v s) k = Some l' \<and> expression l' = expression l))
   \<and> (map_of s (Name name) = None \<longrightarrow>
        map_of (addLabel name None (addLabelExpression name e s)) (Name name)
          = Some \<lparr>expression = Some e, value = Some (Integer 0), known = False, used = False\<rparr>
      \<and> getLabelValue (Suc n) (Name name) (addLabel name None (addLabelExpression name e s))
          = (case eval n e Undefined False
                    (AList.map_entry (Name name) (\<lambda>l. l\<lparr>used := True\<rparr>)
                       (addLabel name None (addLabelExpression name e s))) of
               None \<Rightarrow> None
             | Some (None, t) \<Rightarrow> Some (None, t)
             | Some (Some a, t) \<Rightarrow>
                 Some (Some a,
                   AList.map_entry (Name name) (\<lambda>l. l\<lparr>value := Some a, known := True\<rparr>) t)))
   \<and> map_option fst
        (getLabelValue (Suc n) (Name ''A'')
           (addLabel ''A'' None (addLabelExpression ''A'' (valueOf (Integer 7)) (resetLabels s))))
       = Some (Some (Integer 7))"
proof (intro conjI impI allI)
  fix l assume "map_of s k = Some l"
  then show "\<exists>l'. map_of (addLabel name v s) k = Some l' \<and> expression l' = expression l"
    by (auto simp: map_of_addLabel)
next
  assume a: "map_of s (Name name) = None"
  then show m: "map_of (addLabel name None (addLabelExpression name e s)) (Name name)
          = Some \<lparr>expression = Some e, value = Some (Integer 0), known = False, used = False\<rparr>"
    by (simp add: map_of_addLabel map_of_addLabelExpression orZero_def)
  show "getLabelValue (Suc n) (Name name) (addLabel name None (addLabelExpression name e s))
          = (case eval n e Undefined False
                    (AList.map_entry (Name name) (\<lambda>l. l\<lparr>used := True\<rparr>)
                       (addLabel name None (addLabelExpression name e s))) of
               None \<Rightarrow> None
             | Some (None, t) \<Rightarrow> Some (None, t)
             | Some (Some a, t) \<Rightarrow>
                 Some (Some a,
                   AList.map_entry (Name name) (\<lambda>l. l\<lparr>value := Some a, known := True\<rparr>) t))"
    by (subst getLabelValue.simps) (simp add: m)
next
  show "map_option fst
        (getLabelValue (Suc n) (Name ''A'')
           (addLabel ''A'' None (addLabelExpression ''A'' (valueOf (Integer 7)) (resetLabels s))))
       = Some (Some (Integer 7))"
    by (simp add: getLabelValue.simps addLabel_def addLabelExpression_def resetLabels_def
                  orZero_def)
qed

theorem addLabel_keeps_expression_witness:
  "map_of (addLabelExpression ''A'' (valueOf (Integer 7)) []) (Name ''A'')
     = Some \<lparr>expression = Some (valueOf (Integer 7)), value = Some (Integer 0), known = False,
             used = False\<rparr>
   \<and> map_of (addLabel ''A'' None (addLabelExpression ''A'' (valueOf (Integer 7)) [])) (Name ''A'')
     = Some \<lparr>expression = Some (valueOf (Integer 7)), value = Some (Integer 0), known = False,
             used = False\<rparr>
   \<and> map_of ([] :: Labels) (Name ''A'') = None
   \<and> getLabelValue (Suc 0) (Name ''A'')
        (addLabel ''A'' None (addLabelExpression ''A'' (valueOf (Integer 7)) []))
     = Some (Some (Integer 7),
         [(Name ''A'', \<lparr>expression = Some (valueOf (Integer 7)), value = Some (Integer 7),
                   known = True, used = True\<rparr>)])"
  using addLabel_keeps_expression
          [of "addLabelExpression ''A'' (valueOf (Integer 7)) []" "Name ''A''" "''A''" None
              "valueOf (Integer 7)" 0]
        addLabel_keeps_expression
          [of "[]" "Name ''A''" "''A''" None "valueOf (Integer 7)" 0]
  by (simp add: addLabel_def addLabelExpression_def orZero_def)

text \<open>
  C9. A known entry stays as it is under \<open>addLabelExpression\<close>, stays known with its
  value under \<open>getLabelValue\<close> and under evaluation, and is untouched by \<open>addLabel\<close>
  of another name: through any run that does not call \<open>addLabel\<close> for its name it
  stays known. \<open>addLabel\<close> for its own name with a null value makes it unknown.
\<close>

theorem known_cleared_only_by_addLabel:
  assumes "map_of s k = Some l" "known l"
  shows "map_of (addLabelExpression name e s) k = Some l
       \<and> (\<forall>r s'. getLabelValue n q s = Some (r, s') \<longrightarrow>
            (\<exists>l'. map_of s' k = Some l' \<and> known l' \<and> value l' = value l))
       \<and> (\<forall>r s'. eval n e pc m s = Some (r, s') \<longrightarrow>
            (\<exists>l'. map_of s' k = Some l' \<and> known l' \<and> value l' = value l))
       \<and> (Name name \<noteq> k \<longrightarrow> map_of (addLabel name v s) k = Some l)
       \<and> (\<forall>t. run_keeping k s t \<longrightarrow>
            (\<exists>l'. map_of t k = Some l' \<and> known l' \<and> value l' = value l))
       \<and> (\<forall>x. k = Name x \<longrightarrow>
            map_of (addLabel x None s) k = Some (l\<lparr>value := Some (Integer 0), known := False\<rparr>))"
proof (intro conjI impI allI)
  show "map_of (addLabelExpression name e s) k = Some l"
    using assms by (auto simp: map_of_addLabelExpression)
next
  fix r s' assume "getLabelValue n q s = Some (r, s')"
  then have "grows s s'" by (rule eval_getLabelValue_grows(2))
  from growsD1 [OF this assms(1)] assms(2)
  show "\<exists>l'. map_of s' k = Some l' \<and> known l' \<and> value l' = value l" by auto
next
  fix r s' assume "eval n e pc m s = Some (r, s')"
  then have "grows s s'" by (rule eval_getLabelValue_grows(1))
  from growsD1 [OF this assms(1)] assms(2)
  show "\<exists>l'. map_of s' k = Some l' \<and> known l' \<and> value l' = value l" by auto
next
  assume "Name name \<noteq> k"
  then show "map_of (addLabel name v s) k = Some l"
    using assms by (auto simp: map_of_addLabel)
next
  fix t assume "run_keeping k s t"
  then show "\<exists>l'. map_of t k = Some l' \<and> known l' \<and> value l' = value l"
    using assms by (rule run_keeping_known)
next
  fix x assume "k = Name x"
  then show "map_of (addLabel x None s) k
               = Some (l\<lparr>value := Some (Integer 0), known := False\<rparr>)"
    using assms by (simp add: map_of_addLabel orZero_def)
qed

theorem known_cleared_only_by_addLabel_witness:
  "map_of (addLabel ''A'' (Some (Integer 5)) []) (Name ''A'')
     = Some \<lparr>expression = None, value = Some (Integer 5), known = True, used = False\<rparr>
   \<and> known \<lparr>expression = None, value = Some (Integer 5), known = True, used = False\<rparr>
   \<and> map_of (addLabelExpression ''A'' (valueOf (Integer 1))
               (addLabel ''A'' (Some (Integer 5)) [])) (Name ''A'')
     = Some \<lparr>expression = None, value = Some (Integer 5), known = True, used = False\<rparr>
   \<and> getLabelValue 0 (Name ''A'') (addLabel ''A'' (Some (Integer 5)) [])
     = Some (Some (Integer 5),
         [(Name ''A'', \<lparr>expression = None, value = Some (Integer 5), known = True,
                        used = True\<rparr>)])
   \<and> map_of (addLabel ''B'' None (addLabel ''A'' (Some (Integer 5)) [])) (Name ''A'')
     = Some \<lparr>expression = None, value = Some (Integer 5), known = True, used = False\<rparr>
   \<and> map_of (addLabel ''A'' None (addLabel ''A'' (Some (Integer 5)) [])) (Name ''A'')
     = Some \<lparr>expression = None, value = Some (Integer 0), known = False, used = False\<rparr>"
proof -
  have m: "map_of (addLabel ''A'' (Some (Integer 5)) []) (Name ''A'')
     = Some \<lparr>expression = None, value = Some (Integer 5), known = True, used = False\<rparr>"
    by (simp add: addLabel_def orZero_def)
  have k: "known \<lparr>expression = None, value = Some (Integer 5), known = True, used = False\<rparr>"
    by simp
  from known_cleared_only_by_addLabel
         [OF m k, of "''A''" "valueOf (Integer 1)" 0 "Name ''A''" Undefined False
            "Some (Integer 1)"]
       known_cleared_only_by_addLabel
         [OF m k, of "''B''" "valueOf (Integer 1)" 0 "Name ''A''" Undefined False None]
  show ?thesis
    by (simp add: addLabel_def orZero_def getLabelValue.simps)
qed

text \<open>
  C5. Once \<open>getLabelValue\<close> returns a number for a name, the entry holds it as its
  value and is known, and every later \<open>getLabelValue\<close> of that name returns the same
  number, whatever happens to other labels in between. If the stored expression
  evaluates to null, \<open>getLabelValue\<close> returns null, and the value and the flag \<open>known\<close>
  of the entry are as they were, so that a later pass may try again.
\<close>

theorem getLabelValue_memoizes:
  "(\<forall>v s'. getLabelValue n (Name name) s = Some (Some v, s') \<longrightarrow>
       (\<exists>l'. map_of s' (Name name) = Some l' \<and> known l' \<and> value l' = Some v)
     \<and> (\<forall>t n'. run_keeping (Name name) s' t \<longrightarrow>
           getLabelValue n' (Name name) t
             = Some (Some v, AList.map_entry (Name name) (\<lambda>l. l\<lparr>used := True\<rparr>) t)))
   \<and> (\<forall>l e k s2. map_of s (Name name) = Some l \<longrightarrow> \<not> known l \<longrightarrow> expression l = Some e \<longrightarrow>
        eval k e Undefined False (AList.map_entry (Name name) (\<lambda>l. l\<lparr>used := True\<rparr>) s)
          = Some (None, s2)
          \<longrightarrow> getLabelValue (Suc k) (Name name) s = Some (None, s2))
   \<and> (\<forall>l s'. map_of s (Name name) = Some l \<longrightarrow> \<not> known l \<longrightarrow>
        getLabelValue n (Name name) s = Some (None, s') \<longrightarrow>
        (\<exists>l'. map_of s' (Name name) = Some l' \<and> \<not> known l' \<and> value l' = value l
              \<and> expression l' = expression l))"
proof (intro conjI allI impI)
  fix v s'
  assume g: "getLabelValue n (Name name) s = Some (Some v, s')"
  then show c: "\<exists>l'. map_of s' (Name name) = Some l' \<and> known l' \<and> value l' = Some v"
  proof (cases rule: getLabelValue_cases)
    case (known l)
    then show ?thesis by (simp add: map_of_map_entry)
  next
    case (resolved l e k v' s2)
    let ?s1 = "AList.map_entry (Name name) (\<lambda>l. l\<lparr>used := True\<rparr>) s"
    from resolved(5) have "map_of s2 (Name name) = map_of ?s1 (Name name)"
      by (rule eval_keeps_names(1))
    with resolved(1) have "map_of s2 (Name name) = Some (l\<lparr>used := True\<rparr>)"
      by (simp add: map_of_map_entry)
    with resolved(6,7) show ?thesis by (simp add: map_of_map_entry)
  qed simp_all
  fix t n'
  assume "run_keeping (Name name) s' t"
  with c obtain l' where "map_of t (Name name) = Some l'" "known l'" "value l' = Some v"
    using run_keeping_known by fastforce
  then show "getLabelValue n' (Name name) t
               = Some (Some v, AList.map_entry (Name name) (\<lambda>l. l\<lparr>used := True\<rparr>) t)"
    by (simp add: getLabelValue_known)
next
  fix l e k s2
  assume "map_of s (Name name) = Some l" "\<not> known l" "expression l = Some e"
    "eval k e Undefined False (AList.map_entry (Name name) (\<lambda>l. l\<lparr>used := True\<rparr>) s)
       = Some (None, s2)"
  then show "getLabelValue (Suc k) (Name name) s = Some (None, s2)"
    by (simp add: getLabelValue.simps)
next
  fix l s'
  assume l: "map_of s (Name name) = Some l" "\<not> known l"
    and g: "getLabelValue n (Name name) s = Some (None, s')"
  let ?s1 = "AList.map_entry (Name name) (\<lambda>l. l\<lparr>used := True\<rparr>) s"
  have m1: "map_of ?s1 (Name name) = Some (l\<lparr>used := True\<rparr>)"
    using l(1) by (simp add: map_of_map_entry)
  from g show "\<exists>l'. map_of s' (Name name) = Some l' \<and> \<not> known l' \<and> value l' = value l
                 \<and> expression l' = expression l"
  proof (cases rule: getLabelValue_cases)
    case absent
    with l show ?thesis by simp
  next
    case (known l0)
    with l show ?thesis by simp
  next
    case (noexpr l0)
    with l m1 show ?thesis by simp
  next
    case (unresolved l0 e k)
    from unresolved(5) have "map_of s' (Name name) = map_of ?s1 (Name name)"
      by (rule eval_keeps_names(1))
    with m1 l show ?thesis by simp
  next
    case (resolved l0 e k v s2)
    then show ?thesis by simp
  qed
qed

theorem getLabelValue_memoizes_witness:
  "getLabelValue (Suc 0) (Name ''A'') (addLabelExpression ''A'' (valueOf (Integer 7)) [])
     = Some (Some (Integer 7),
         [(Name ''A'', \<lparr>expression = Some (valueOf (Integer 7)), value = Some (Integer 7),
                        known = True, used = True\<rparr>)])
   \<and> run_keeping (Name ''A'')
        [(Name ''A'', \<lparr>expression = Some (valueOf (Integer 7)), value = Some (Integer 7),
                       known = True, used = True\<rparr>)]
        (addLabel ''B'' (Some (Integer 1))
           [(Name ''A'', \<lparr>expression = Some (valueOf (Integer 7)), value = Some (Integer 7),
                          known = True, used = True\<rparr>)])
   \<and> map_option fst
        (getLabelValue 0 (Name ''A'')
          (addLabel ''B'' (Some (Integer 1))
             [(Name ''A'', \<lparr>expression = Some (valueOf (Integer 7)), value = Some (Integer 7),
                            known = True, used = True\<rparr>)]))
       = Some (Some (Integer 7))
   \<and> map_of (addLabelExpression ''A'' (labelValue ''B'') (addLabel ''B'' (Some (Integer 5)) []))
        (Name ''A'')
       = Some \<lparr>expression = Some (labelValue ''B''), value = Some (Integer 0), known = False,
               used = False\<rparr>
   \<and> getLabelValue (Suc 0) (Name ''A'')
        (addLabelExpression ''A'' (labelValue ''B'') (addLabel ''B'' (Some (Integer 5)) []))
       = Some (None,
           [(Name ''B'', \<lparr>expression = None, value = Some (Integer 5), known = True,
                          used = False\<rparr>),
            (Name ''A'', \<lparr>expression = Some (labelValue ''B''), value = Some (Integer 0),
                          known = False, used = True\<rparr>),
            (At Undefined, \<lparr>expression = None, value = Some (Integer 0), known = False,
                            used = True\<rparr>)])"
proof -
  have k: "run_keeping (Name ''A'')
        [(Name ''A'', \<lparr>expression = Some (valueOf (Integer 7)), value = Some (Integer 7),
                       known = True, used = True\<rparr>)]
        (addLabel ''B'' (Some (Integer 1))
           [(Name ''A'', \<lparr>expression = Some (valueOf (Integer 7)), value = Some (Integer 7),
                          known = True, used = True\<rparr>)])"
    by (rule keep_addLabel [OF keep_refl]) simp
  from k
    getLabelValue_memoizes
      [of "Suc 0" "''A''" "addLabelExpression ''A'' (valueOf (Integer 7)) []"]
    getLabelValue_memoizes
      [of "Suc 0" "''A''"
          "addLabelExpression ''A'' (labelValue ''B'') (addLabel ''B'' (Some (Integer 5)) [])"]
  show ?thesis
    by (simp add: addLabelExpression_def addLabel_def orZero_def getLabelValue.simps)
qed

section \<open>Expression nodes\<close>

text \<open>
  A label node reads the entry under the program counter. In a table of a run that
  entry is never known and holds no expression, so a label node evaluates to null; it
  leaves a placeholder under the program counter if there was none.
\<close>

lemma label_node_null:
  assumes "counters_unresolved s"
  shows "\<exists>s'. eval n (labelValue name) pc m s = Some (None, s')"
  by (simp add: getLabelValue_counter [OF assms])

text \<open>
  C7. Expression evaluation raises nothing and always returns: in every table of a
  run, for every program counter, flag and bound, the evaluation of an expression has a
  result. A unary node returns null exactly when its operand is null and the operator
  applied to the value of the operand otherwise; a binary node evaluates its right
  operand and then its left one, returns null exactly when one of them is null and the
  operator applied to the two values otherwise; without a left operand it returns the
  result of its right operand.
\<close>

theorem nodes_propagate_null:
  assumes "reachable s"
  shows "(\<exists>r s'. eval n x pc m s = Some (r, s'))
       \<and> (\<exists>v s'. eval n e pc m s = Some (v, s')
            \<and> eval n (unaryOperation e op) pc m s
                 = Some (case v of None \<Rightarrow> None | Some a \<Rightarrow> Some (op a), s'))
       \<and> (\<exists>rv s1. eval n right pc m s = Some (rv, s1)
            \<and> eval n (binaryOperation None right bop) pc m s = Some (rv, s1)
            \<and> (\<exists>lv s2 res. eval n l pc m s1 = Some (lv, s2)
                  \<and> eval n (binaryOperation (Some l) right bop) pc m s = Some (res, s2)
                  \<and> (res = None \<longleftrightarrow> lv = None \<or> rv = None)
                  \<and> (\<forall>a b. lv = Some a \<longrightarrow> rv = Some b \<longrightarrow> res = Some (bop a b))))"
proof (intro conjI)
  from assms have cu: "counters_unresolved s" by (rule reachable_counters_unresolved)
  show "\<exists>r s'. eval n x pc m s = Some (r, s')"
    using cu by (rule eval_returns)
  from eval_returns [OF cu] obtain v s' where "eval n e pc m s = Some (v, s')" by blast
  then show "\<exists>v s'. eval n e pc m s = Some (v, s')
            \<and> eval n (unaryOperation e op) pc m s
                 = Some (case v of None \<Rightarrow> None | Some a \<Rightarrow> Some (op a), s')"
    by simp
  from eval_returns [OF cu] obtain rv s1 where r: "eval n right pc m s = Some (rv, s1)"
    by blast
  with cu have "counters_unresolved s1" by (simp add: counters_unresolved_eval(1))
  from eval_returns [OF this] obtain lv s2 where l: "eval n l pc m s1 = Some (lv, s2)"
    by blast
  have "\<exists>res. eval n (binaryOperation (Some l) right bop) pc m s = Some (res, s2)
          \<and> (res = None \<longleftrightarrow> lv = None \<or> rv = None)
          \<and> (\<forall>a b. lv = Some a \<longrightarrow> rv = Some b \<longrightarrow> res = Some (bop a b))"
    using r l by (cases lv; cases rv) simp_all
  with r l show "\<exists>rv s1. eval n right pc m s = Some (rv, s1)
            \<and> eval n (binaryOperation None right bop) pc m s = Some (rv, s1)
            \<and> (\<exists>lv s2 res. eval n l pc m s1 = Some (lv, s2)
                  \<and> eval n (binaryOperation (Some l) right bop) pc m s = Some (res, s2)
                  \<and> (res = None \<longleftrightarrow> lv = None \<or> rv = None)
                  \<and> (\<forall>a b. lv = Some a \<longrightarrow> rv = Some b \<longrightarrow> res = Some (bop a b)))"
    by auto
qed

theorem nodes_propagate_null_witness:
  "reachable (addLabel ''B'' (Some (Integer 5)) (resetLabels []))
   \<and> eval 0 (unaryOperation (valueOf (Integer 5)) operatorNeg) (Addr (Integer 0)) True
        (addLabel ''B'' (Some (Integer 5)) (resetLabels []))
       = Some (Some (Integer (- 5)),
           [(Name ''B'', \<lparr>expression = None, value = Some (Integer 5), known = True,
                          used = False\<rparr>)])
   \<and> eval 0 (binaryOperation (Some (valueOf (Integer 2))) (valueOf (Integer 5)) operatorSub)
        (Addr (Integer 0)) True (addLabel ''B'' (Some (Integer 5)) (resetLabels []))
       = Some (Some (Integer (- 3)),
           [(Name ''B'', \<lparr>expression = None, value = Some (Integer 5), known = True,
                          used = False\<rparr>)])
   \<and> eval 0 (binaryOperation (Some (valueOf (Integer 2))) (labelValue ''B'') operatorSub)
        (Addr (Integer 0)) True (addLabel ''B'' (Some (Integer 5)) (resetLabels []))
       = Some (None,
           [(Name ''B'', \<lparr>expression = None, value = Some (Integer 5), known = True,
                          used = False\<rparr>),
            (At (Addr (Integer 0)), \<lparr>expression = None, value = Some (Integer 0),
                                     known = False, used = True\<rparr>)])"
proof -
  have r: "reachable (addLabel ''B'' (Some (Integer 5)) (resetLabels []))"
    by (intro reach_addLabel reach_reset)
  from r
    nodes_propagate_null
      [OF r, of 0 "valueOf (Integer 5)" "Addr (Integer 0)" True "valueOf (Integer 5)"
          operatorNeg "valueOf (Integer 5)" operatorSub "valueOf (Integer 2)"]
    nodes_propagate_null
      [OF r, of 0 "labelValue ''B''" "Addr (Integer 0)" True "labelValue ''B''"
          operatorNeg "labelValue ''B''" operatorSub "valueOf (Integer 2)"]
  show ?thesis
    by (simp add: getLabelValue.simps addLabel_def resetLabels_def orZero_def
                  operatorNeg_def operatorSub_def)
qed

end
